theory Spec2Isabelle
  imports Complex_Main "HOL-Library.Finite_Map" "HOL-Library.AList"
begin

section \<open>JSON values and JavaScript truthiness\<close>

text \<open>
  The request bodies of \<^verbatim>\<open>node-api/index.js\<close> are what \<^verbatim>\<open>express.json()\<close> parsed:
  JSON values. An object is a finite map from property names to values, so that two
  objects are equal exactly when they have the same properties; the order in which a
  JavaScript engine enumerates them is not part of the value. Strings are the UTF-8
  bytes of the text.
\<close>

datatype json =
    JNull
  | JBool bool
  | JNum rat
  | JStr string
  | JArr "json list"
  | JObj "(string, json) fmap"

text \<open>
  A task is the object a client sends and the store keeps. The OpenAPI annotations of
  the source declare every request body as an object (or, for POST, an array of
  objects); the handlers are modelled on these bodies.
\<close>

type_synonym task = "(string, json) fmap"

text \<open>
  JavaScript's ToBoolean on a parsed JSON value: \<^verbatim>\<open>null\<close>, \<^verbatim>\<open>false\<close>, \<^verbatim>\<open>0\<close> and
  \<^verbatim>\<open>""\<close> are falsy, every array and every object is truthy.
\<close>

fun truthy :: "json \<Rightarrow> bool" where
  "truthy JNull = False"
| "truthy (JBool b) = b"
| "truthy (JNum n) = (n \<noteq> 0)"
| "truthy (JStr s) = (s \<noteq> [])"
| "truthy (JArr xs) = True"
| "truthy (JObj m) = True"

text \<open>A property that is absent reads as \<^verbatim>\<open>undefined\<close>, which is falsy.\<close>

definition truthy_opt :: "json option \<Rightarrow> bool" where
  "truthy_opt v = (case v of None \<Rightarrow> False | Some x \<Rightarrow> truthy x)"

text \<open>
  \<^verbatim>\<open>v.id\<close> for a truthy JSON value \<open>v\<close>: an object yields its property, and a
  string, a number, a boolean or a freshly parsed array has no property of that name.
\<close>

fun value_id :: "json \<Rightarrow> json option" where
  "value_id (JObj m) = fmlookup m ''id''"
| "value_id v = None"

text \<open>\<^verbatim>\<open>typeof v === 'boolean'\<close>, with \<open>None\<close> for \<^verbatim>\<open>undefined\<close>.\<close>

fun is_boolean :: "json option \<Rightarrow> bool" where
  "is_boolean (Some (JBool b)) = True"
| "is_boolean v = False"

text \<open>
  \<^verbatim>\<open>if (task.value && task.value.id) { delete task.value.id; }\<close>
\<close>

definition strip_value_id :: "task \<Rightarrow> task" where
  "strip_value_id t =
     (case fmlookup t ''value'' of
        None \<Rightarrow> t
      | Some v \<Rightarrow>
          if truthy v \<and> truthy_opt (value_id v)
          then (case v of JObj m \<Rightarrow> fmupd ''value'' (JObj (fmdrop ''id'' m)) t | _ \<Rightarrow> t)
          else t)"

text \<open>\<^verbatim>\<open>{ id, ...value }\<close>: the properties of \<open>value\<close> are copied after \<open>id\<close> is set.\<close>

definition with_id :: "string \<Rightarrow> task \<Rightarrow> task" where
  "with_id ident v = fmupd ''id'' (JStr ident) fmempty ++\<^sub>f v"

section \<open>The identifier counter\<close>

text \<open>
  \<^verbatim>\<open>nextId\<close> is a JavaScript Number that starts at 1 and only changes by
  \<^verbatim>\<open>nextId++\<close>. It is modelled as a natural number. Below \<open>2 ^ 53\<close> the increment is
  exact; at \<open>2 ^ 53\<close> the sum \<open>2 ^ 53 + 1\<close> is not a double and rounds back to
  \<open>2 ^ 53\<close> (ties to even), so the counter stays there.
\<close>

definition incr :: "nat \<Rightarrow> nat" where
  "incr n = (if n < 2 ^ 53 then n + 1 else n)"

text \<open>\<^verbatim>\<open>Number.prototype.toString\<close> on a non-negative integer: its decimal digits.\<close>

definition digit_char :: "nat \<Rightarrow> char" where
  "digit_char d = char_of (48 + d)"

fun toString :: "nat \<Rightarrow> string" where
  "toString n =
     (if n < 10 then [digit_char n] else toString (n div 10) @ [digit_char (n mod 10)])"

declare toString.simps [simp del]

section \<open>The store\<close>

text \<open>
  \<^verbatim>\<open>dataMap\<close> is a JavaScript \<^verbatim>\<open>Map\<close>: it keeps its entries in insertion order,
  \<^verbatim>\<open>set\<close> on a present key replaces the value in place and on an absent key appends
  (\<^const>\<open>AList.update\<close>), \<^verbatim>\<open>delete\<close> removes the entry (\<^const>\<open>AList.delete\<close>),
  \<^verbatim>\<open>get\<close> is \<^const>\<open>map_of\<close>.
\<close>

record state =
  dataMap :: "(string \<times> task) list"
  nextId :: nat

definition init :: state where
  "init = \<lparr>dataMap = [], nextId = 1\<rparr>"

definition has :: "(string \<times> task) list \<Rightarrow> string \<Rightarrow> bool" where
  "has m k = (map_of m k \<noteq> None)"

record response =
  status :: nat
  payload :: json

definition item_not_found :: json where
  "item_not_found =
     JObj (fmupd ''error'' (JStr (''Item n'' @ [CHR 0xC3, CHR 0xA3] @ ''o encontrado'')) fmempty)"

definition task_not_found :: json where
  "task_not_found =
     JObj (fmupd ''error'' (JStr (''Tarefa n'' @ [CHR 0xC3, CHR 0xA3] @ ''o encontrada'')) fmempty)"

definition invalid_data :: json where
  "invalid_data =
     JObj (fmupd ''error''
       (JStr (''Dados inv'' @ [CHR 0xC3, CHR 0xA1] @ ''lidos ou campos obrigat'' @
              [CHR 0xC3, CHR 0xB3] @ ''rios ausentes'')) fmempty)"

definition id_exists :: "string \<Rightarrow> json" where
  "id_exists ident =
     JObj (fmupd ''error'' (JStr (''ID j'' @ [CHR 0xC3, CHR 0xA1] @ '' existe''))
          (fmupd ''id'' (JStr ident) fmempty))"

definition deleted_message :: json where
  "deleted_message = JObj (fmupd ''message'' (JStr ''Item deletado com sucesso'') fmempty)"

section \<open>The handlers\<close>

text \<open>GET /tasks\<close>

definition get_tasks :: "state \<Rightarrow> response" where
  "get_tasks s =
     \<lparr>status = 200, payload = JArr (map (\<lambda>(ident, v). JObj (with_id ident v)) (dataMap s))\<rparr>"

text \<open>GET /tasks/:id\<close>

definition get_task :: "state \<Rightarrow> string \<Rightarrow> response" where
  "get_task s ident =
     (case map_of (dataMap s) ident of
        Some v \<Rightarrow> \<lparr>status = 200, payload = JObj (with_id ident v)\<rparr>
      | None \<Rightarrow> \<lparr>status = 404, payload = item_not_found\<rparr>)"

text \<open>
  POST /tasks. The \<^verbatim>\<open>for\<close> loop of the array branch threads the store, the counter
  and the two result arrays \<^verbatim>\<open>addedTasks\<close> and \<^verbatim>\<open>errors\<close>.
\<close>

datatype post_body = BArr "task list" | BObj task

fun post_loop ::
  "task list \<Rightarrow> state \<Rightarrow> task list \<Rightarrow> json list \<Rightarrow> state \<times> task list \<times> json list"
where
  "post_loop [] s addedTasks errors = (s, addedTasks, errors)"
| "post_loop (task # rest) s addedTasks errors =
     (let ident = toString (nextId s);
          s1 = s\<lparr>nextId := incr (nextId s)\<rparr>;
          task1 = strip_value_id (fmupd ''id'' (JStr ident) task)
      in if has (dataMap s1) ident
         then post_loop rest s1 addedTasks (errors @ [id_exists ident])
         else post_loop rest (s1\<lparr>dataMap := AList.update ident task1 (dataMap s1)\<rparr>)
                (addedTasks @ [task1]) errors)"

definition post_tasks :: "state \<Rightarrow> post_body \<Rightarrow> state \<times> response" where
  "post_tasks s b =
     (case b of
        BArr tasks \<Rightarrow>
          (case post_loop tasks s [] [] of
             (s', addedTasks, errors) \<Rightarrow>
               if errors \<noteq> []
               then (s', \<lparr>status = 400, payload = JObj (fmupd ''errors'' (JArr errors) fmempty)\<rparr>)
               else (s', \<lparr>status = 201, payload = JArr (map JObj addedTasks)\<rparr>))
      | BObj body \<Rightarrow>
          (let ident = toString (nextId s);
               body1 = strip_value_id (fmupd ''id'' (JStr ident) body)
           in (\<lparr>dataMap = AList.update ident body1 (dataMap s), nextId = incr (nextId s)\<rparr>,
               \<lparr>status = 201, payload = JObj body1\<rparr>)))"

text \<open>DELETE /tasks/:id\<close>

definition delete_task :: "state \<Rightarrow> string \<Rightarrow> state \<times> response" where
  "delete_task s ident =
     (if has (dataMap s) ident
      then (s\<lparr>dataMap := AList.delete ident (dataMap s)\<rparr>,
            \<lparr>status = 200, payload = deleted_message\<rparr>)
      else (s, \<lparr>status = 404, payload = item_not_found\<rparr>))"

text \<open>PATCH /tasks/:id\<close>

definition patch_task :: "state \<Rightarrow> string \<Rightarrow> task \<Rightarrow> state \<times> response" where
  "patch_task s ident body =
     (if has (dataMap s) ident
      then (s\<lparr>dataMap := AList.update ident body (dataMap s)\<rparr>,
            \<lparr>status = 201, payload = JObj body\<rparr>)
      else (s, \<lparr>status = 404, payload = item_not_found\<rparr>))"

text \<open>PUT /tasks/:id\<close>

definition put_task :: "state \<Rightarrow> string \<Rightarrow> task \<Rightarrow> state \<times> response" where
  "put_task s ident updatedTask =
     (if \<not> has (dataMap s) ident
      then (s, \<lparr>status = 404, payload = task_not_found\<rparr>)
      else if \<not> truthy_opt (fmlookup updatedTask ''title'')
              \<or> \<not> truthy_opt (fmlookup updatedTask ''describe'')
              \<or> \<not> is_boolean (fmlookup updatedTask ''isCompleted'')
      then (s, \<lparr>status = 400, payload = invalid_data\<rparr>)
      else (s\<lparr>dataMap := AList.update ident updatedTask (dataMap s)\<rparr>,
            \<lparr>status = 200, payload = JObj (with_id ident updatedTask)\<rparr>))"

text \<open>The requests that read or change the store, and the states a server can be in.\<close>

datatype request =
    GetTasks
  | GetTask string
  | PostTasks post_body
  | DeleteTask string
  | PatchTask string task
  | PutTask string task

fun handle :: "state \<Rightarrow> request \<Rightarrow> state \<times> response" where
  "handle s GetTasks = (s, get_tasks s)"
| "handle s (GetTask ident) = (s, get_task s ident)"
| "handle s (PostTasks b) = post_tasks s b"
| "handle s (DeleteTask ident) = delete_task s ident"
| "handle s (PatchTask ident body) = patch_task s ident body"
| "handle s (PutTask ident body) = put_task s ident body"

inductive reachable :: "state \<Rightarrow> bool" where
  reachable_init: "reachable init"
| reachable_step: "reachable s \<Longrightarrow> reachable (fst (handle s req))"

section \<open>Observing the handlers\<close>

text \<open>
  What the body of a JSON response carries in its \<open>id\<close> property, if anything.
\<close>

definition response_id :: "response \<Rightarrow> json option" where
  "response_id r = (case payload r of JObj m \<Rightarrow> fmlookup m ''id'' | _ \<Rightarrow> None)"

text \<open>
  The record both branches of POST build from a client's task when the counter reads
  \<open>n\<close>: \<^verbatim>\<open>task.id = id\<close>, then the conditional \<^verbatim>\<open>delete task.value.id\<close>.
\<close>

definition created :: "nat \<Rightarrow> task \<Rightarrow> task" where
  "created n t = strip_value_id (fmupd ''id'' (JStr (toString n)) t)"

text \<open>
  The tasks of a batch paired with the counter values \<open>nextId s\<close>, \<open>nextId s + 1\<close>, ...
  they meet, split by whether that identifier is a key of the store the batch starts
  from.
\<close>

definition fresh :: "state \<Rightarrow> task list \<Rightarrow> (nat \<times> task) list" where
  "fresh s ts = filter (\<lambda>(j, t). \<not> has (dataMap s) (toString j)) (enumerate (nextId s) ts)"

definition colliding :: "state \<Rightarrow> task list \<Rightarrow> (nat \<times> task) list" where
  "colliding s ts = filter (\<lambda>(j, t). has (dataMap s) (toString j)) (enumerate (nextId s) ts)"

text \<open>A sequence of requests, handled one after the other.\<close>

fun run :: "state \<Rightarrow> request list \<Rightarrow> state" where
  "run s [] = s"
| "run s (r # rs) = run (fst (handle s r)) rs"

text \<open>
  What a creation hands out, read off the handler's own results: the \<open>id\<close> properties of
  the records in the 201 response of a POST, and the keys the store has after a request
  and did not have before it, in insertion order.
\<close>

definition record_id :: "json \<Rightarrow> json option" where
  "record_id v = (case v of JObj m \<Rightarrow> fmlookup m ''id'' | _ \<Rightarrow> None)"





text \<open>The number a string of decimal digits denotes, to compare identifiers as integers.\<close>

definition toNumber :: "string \<Rightarrow> nat" where
  "toNumber ds = foldl (\<lambda>a c. 10 * a + (of_char c - 48)) 0 ds"

text \<open>
  The value \<^verbatim>\<open>nextId\<close> has when the loop over a batch reaches its task number \<open>i\<close>
  (counted from 0), and whether the identifier made from it collides: it is a key of
  the store the batch starts from, or an earlier task of the same batch was given it.
\<close>

definition counter :: "state \<Rightarrow> nat \<Rightarrow> nat" where
  "counter s i = (incr ^^ i) (nextId s)"

definition collides :: "state \<Rightarrow> nat \<Rightarrow> bool" where
  "collides s i \<longleftrightarrow>
     has (dataMap s) (toString (counter s i)) \<or> counter s i \<in> set (map (counter s) [0..<i])"

fun creates :: "request \<Rightarrow> bool" where
  "creates (PostTasks b) = True"
| "creates r = False"

text \<open>Every key of the store is the decimal string of a number below the counter.\<close>

definition ids_below :: "state \<Rightarrow> bool" where
  "ids_below s = (\<forall>k. has (dataMap s) k \<longrightarrow> (\<exists>j<nextId s. k = toString j))"

text \<open>
  The validation of PUT in the words of the specification: a non-empty \<open>title\<close> of
  string type, a non-empty \<open>describe\<close> of string type and an \<open>isCompleted\<close> of boolean
  type. It is compared below with what \<open>put_task\<close> checks.
\<close>

definition nonempty_string :: "json option \<Rightarrow> bool" where
  "nonempty_string v = (case v of Some (JStr s) \<Rightarrow> s \<noteq> [] | _ \<Rightarrow> False)"

definition put_valid_spec :: "task \<Rightarrow> bool" where
  "put_valid_spec b \<longleftrightarrow>
     nonempty_string (fmlookup b ''title'') \<and> nonempty_string (fmlookup b ''describe'')
     \<and> is_boolean (fmlookup b ''isCompleted'')"

section \<open>Identifiers and the store\<close>

lemma digit_char_inj: "a < 10 \<Longrightarrow> b < 10 \<Longrightarrow> digit_char a = digit_char b \<Longrightarrow> a = b"
proof -
  assume a: "a < 10" and b: "b < 10" and e: "digit_char a = digit_char b"
  from e have "(of_char (char_of (48 + a)) :: nat) = of_char (char_of (48 + b))"
    by (simp add: digit_char_def)
  then have "(48 + a) mod 256 = (48 + b) mod 256" by simp
  with a b show "a = b" by simp
qed

lemma toString_nonempty: "toString n \<noteq> []"
  by (subst toString.simps) simp

lemma toString_inj: "toString m = toString n \<Longrightarrow> m = n"
proof (induction m arbitrary: n rule: toString.induct)
  case (1 m)
  show ?case
  proof (cases "m < 10")
    case True
    note m = this
    show ?thesis
    proof (cases "n < 10")
      case True
      with m "1.prems" show ?thesis
        by (simp add: toString.simps [of m] toString.simps [of n] digit_char_inj)
    next
      case False
      with m "1.prems" toString_nonempty [of "n div 10"] show ?thesis
        by (simp add: toString.simps [of m] toString.simps [of n])
    qed
  next
    case False
    note m = this
    show ?thesis
    proof (cases "n < 10")
      case True
      with m "1.prems" toString_nonempty [of "m div 10"] show ?thesis
        by (simp add: toString.simps [of m] toString.simps [of n])
    next
      case False
      with m "1.prems" have e: "toString (m div 10) = toString (n div 10)"
        and d: "digit_char (m mod 10) = digit_char (n mod 10)"
        by (simp_all add: toString.simps [of m] toString.simps [of n])
      from "1.IH" [OF m e] have q: "m div 10 = n div 10" .
      from d have r: "m mod 10 = n mod 10" by (simp add: digit_char_inj)
      from q r show ?thesis by (metis div_mult_mod_eq)
    qed
  qed
qed

lemma toString_eq_iff [simp]: "toString m = toString n \<longleftrightarrow> m = n"
  using toString_inj by blast

lemma has_Nil [simp]: "has [] k = False"
  by (simp add: has_def)

lemma has_iff: "has m k \<longleftrightarrow> k \<in> fst ` set m"
  by (simp add: has_def map_of_eq_None_iff)

lemma has_update [simp]: "has (AList.update k v m) k' \<longleftrightarrow> k' = k \<or> has m k'"
  by (auto simp add: has_def update_conv')

lemma has_delete [simp]: "has (AList.delete k m) k' \<longleftrightarrow> k' \<noteq> k \<and> has m k'"
  by (auto simp add: has_def delete_conv')

lemma update_absent: "\<not> has m k \<Longrightarrow> AList.update k v m = m @ [(k, v)]"
  by (induction m) (auto simp add: has_def split: if_splits)

lemma has_append [simp]: "has (m @ m') k \<longleftrightarrow> has m k \<or> has m' k"
  by (auto simp add: has_iff)

lemma has_Cons [simp]: "has ((k', v) # m) k \<longleftrightarrow> k = k' \<or> has m k"
  by (auto simp add: has_iff)

lemma incr_exact: "n < 2 ^ 53 \<Longrightarrow> incr n = Suc n"
  by (simp add: incr_def)

lemma incr_ge: "n \<le> incr n"
  by (simp add: incr_def)

lemma filter_enumerate_cong:
  assumes "\<And>j. n \<le> j \<Longrightarrow> P j = Q j"
  shows "filter (\<lambda>(j, t). P j) (enumerate n ts) = filter (\<lambda>(j, t). Q j) (enumerate n ts)"
  by (rule filter_cong) (auto simp add: in_set_enumerate_eq assms)

lemma post_loop_exact:
  "nextId s + length ts \<le> 2 ^ 53 \<Longrightarrow>
   post_loop ts s added errors =
     (s\<lparr>dataMap := dataMap s @ map (\<lambda>(j, t). (toString j, created j t)) (fresh s ts),
        nextId := nextId s + length ts\<rparr>,
      added @ map (\<lambda>(j, t). created j t) (fresh s ts),
      errors @ map (\<lambda>(j, t). id_exists (toString j)) (colliding s ts))"
proof (induction ts arbitrary: s added errors)
  case Nil
  show ?case by (simp add: fresh_def colliding_def)
next
  case (Cons t ts)
  let ?n = "nextId s"
  from Cons.prems have lt: "?n < 2 ^ 53" and le: "Suc ?n + length ts \<le> 2 ^ 53" by simp_all
  have inc: "incr ?n = Suc ?n" using lt by (simp add: incr_def)
  show ?case
  proof (cases "has (dataMap s) (toString ?n)")
    case True
    let ?s1 = "s\<lparr>nextId := Suc ?n\<rparr>"
    have b: "nextId ?s1 + length ts \<le> 2 ^ 53" using le by simp
    have f: "fresh s (t # ts) = fresh ?s1 ts" and c: "colliding s (t # ts) = (?n, t) # colliding ?s1 ts"
      using True by (simp_all add: fresh_def colliding_def)
    show ?thesis
      using True by (simp add: inc Let_def Cons.IH [OF b] f c)
  next
    case False
    let ?v = "strip_value_id (fmupd ''id'' (JStr (toString ?n)) t)"
    let ?s2 = "s\<lparr>nextId := Suc ?n, dataMap := dataMap s @ [(toString ?n, ?v)]\<rparr>"
    have b: "nextId ?s2 + length ts \<le> 2 ^ 53" using le by simp
    have f1: "fresh ?s2 ts = filter (\<lambda>(j, t). \<not> has (dataMap s) (toString j)) (enumerate (Suc ?n) ts)"
      unfolding fresh_def by (simp, rule filter_enumerate_cong) auto
    have c1: "colliding ?s2 ts = filter (\<lambda>(j, t). has (dataMap s) (toString j)) (enumerate (Suc ?n) ts)"
      unfolding colliding_def by (simp, rule filter_enumerate_cong) auto
    have f: "fresh s (t # ts) = (?n, t) # fresh ?s2 ts" and c: "colliding s (t # ts) = colliding ?s2 ts"
      using False by (simp_all add: f1 c1) (simp_all add: fresh_def colliding_def)
    show ?thesis
      using False by (simp add: inc Let_def update_absent Cons.IH [OF b] f c created_def)
  qed
qed

lemma post_loop_nextId:
  "nextId (fst (post_loop ts s added errors)) = (incr ^^ length ts) (nextId s)"
  by (induction ts arbitrary: s added errors) (simp_all add: Let_def funpow_swap1)

lemma incr_funpow: "(incr ^^ k) n = (if n < 2 ^ 53 then min (n + k) (2 ^ 53) else n)"
  by (induction k) (auto simp add: incr_def)

lemma post_loop_bound:
  "nextId (fst (post_loop ts s added errors)) < 2 ^ 53 \<Longrightarrow> nextId s + length ts < 2 ^ 53"
  by (simp add: post_loop_nextId incr_funpow split: if_splits)

lemma nextId_handle_mono: "nextId s \<le> nextId (fst (handle s r))"
proof (cases r)
  case (PostTasks b)
  show ?thesis
  proof (cases b)
    case (BArr ts)
    obtain s' a e where p: "post_loop ts s [] [] = (s', a, e)" by (cases "post_loop ts s [] []")
    have "nextId s \<le> nextId (fst (post_loop ts s [] []))"
      by (simp add: post_loop_nextId incr_funpow)
    with p PostTasks BArr show ?thesis by (simp add: post_tasks_def)
  next
    case (BObj body)
    with PostTasks show ?thesis by (simp add: post_tasks_def Let_def incr_def)
  qed
qed (simp_all add: delete_task_def patch_task_def put_task_def)


lemma has_map_created:
  "has (map (\<lambda>(j, t). (toString j, created j t)) xs) k \<longleftrightarrow> (\<exists>j \<in> fst ` set xs. k = toString j)"
  by (force simp add: has_iff image_iff)

lemma fst_fresh: "j \<in> fst ` set (fresh s ts) \<Longrightarrow> nextId s \<le> j \<and> j < nextId s + length ts"
  by (auto simp add: fresh_def in_set_enumerate_eq)

lemma ids_below_step:
  assumes lt: "nextId (fst (handle s r)) < 2 ^ 53" and inv: "ids_below s"
  shows "ids_below (fst (handle s r))"
proof (cases r)
  case GetTasks
  with inv show ?thesis by simp
next
  case (GetTask k)
  with inv show ?thesis by simp
next
  case (DeleteTask k)
  with inv show ?thesis by (auto simp add: delete_task_def ids_below_def)
next
  case (PatchTask k body)
  with inv show ?thesis by (auto simp add: patch_task_def ids_below_def)
next
  case (PutTask k body)
  with inv show ?thesis by (auto simp add: put_task_def ids_below_def)
next
  case (PostTasks b)
  show ?thesis
  proof (cases b)
    case (BObj body)
    from lt PostTasks BObj have n: "nextId s < 2 ^ 53"
      by (simp add: post_tasks_def Let_def incr_def split: if_splits)
    with inv PostTasks BObj show ?thesis
      by (auto simp add: post_tasks_def Let_def incr_def ids_below_def intro: less_SucI)
  next
    case (BArr ts)
    obtain s' a e where p: "post_loop ts s [] [] = (s', a, e)" by (cases "post_loop ts s [] []")
    from p have s': "s' = fst (post_loop ts s [] [])" by simp
    from lt PostTasks BArr p have "nextId s' < 2 ^ 53" by (simp add: post_tasks_def split: if_splits)
    then have "nextId s + length ts < 2 ^ 53" unfolding s' by (rule post_loop_bound)
    then have b: "nextId s + length ts \<le> 2 ^ 53" by simp
    have f: "fst (handle s r) = s'" using PostTasks BArr p by (simp add: post_tasks_def)
    have e: "s' = s\<lparr>dataMap := dataMap s @ map (\<lambda>(j, t). (toString j, created j t)) (fresh s ts),
        nextId := nextId s + length ts\<rparr>"
      using p post_loop_exact [OF b, of "[]" "[]"] by simp
    show ?thesis
      unfolding f ids_below_def
    proof (intro allI impI)
      fix k assume "has (dataMap s') k"
      then consider "has (dataMap s) k" | j where "j \<in> fst ` set (fresh s ts)" "k = toString j"
        by (subst (asm) e) (auto simp add: has_map_created)
      then show "\<exists>j<nextId s'. k = toString j"
      proof cases
        case 1
        with inv obtain j where "j < nextId s" "k = toString j" by (auto simp add: ids_below_def)
        then show ?thesis by (subst e) auto
      next
        case 2
        with fst_fresh [of j s ts] show ?thesis by (subst e) auto
      qed
    qed
  qed
qed

lemma reachable_ids_below: "reachable s \<Longrightarrow> nextId s < 2 ^ 53 \<Longrightarrow> ids_below s"
proof (induction rule: reachable.induct)
  case reachable_init
  show ?case by (simp add: ids_below_def init_def)
next
  case (reachable_step s req)
  have "nextId s \<le> nextId (fst (handle s req))" by (rule nextId_handle_mono)
  with reachable_step.prems have "nextId s < 2 ^ 53" by simp
  then have "ids_below s" by (rule reachable_step.IH)
  with reachable_step.prems show ?case by (rule ids_below_step)
qed



lemma strip_value_id_empty [simp]: "strip_value_id (fmupd ''id'' v fmempty) = fmupd ''id'' v fmempty"
  by (simp add: strip_value_id_def)

lemma reachable_counter: "0 < n \<Longrightarrow> n \<le> 2 ^ 53 \<Longrightarrow> reachable \<lparr>dataMap = [], nextId = n\<rparr>"
proof (induction n)
  case 0
  then show ?case by simp
next
  case (Suc n)
  show ?case
  proof (cases "n = 0")
    case True
    with reachable_init show ?thesis by (simp add: init_def)
  next
    case False
    let ?s = "\<lparr>dataMap = [], nextId = n\<rparr>"
    from False Suc have r: "reachable ?s" and lt: "n < 2 ^ 53" by simp_all
    let ?s1 = "fst (handle ?s (PostTasks (BObj fmempty)))"
    have s1: "?s1 = \<lparr>dataMap = [(toString n, fmupd ''id'' (JStr (toString n)) fmempty)], nextId = Suc n\<rparr>"
      using lt by (simp add: post_tasks_def Let_def incr_def)
    have s2: "fst (handle ?s1 (DeleteTask (toString n))) = \<lparr>dataMap = [], nextId = Suc n\<rparr>"
      unfolding s1 by (simp add: delete_task_def)
    have "reachable ?s1" using r by (rule reachable_step)
    then have "reachable (fst (handle ?s1 (DeleteTask (toString n))))" by (rule reachable_step)
    then show ?thesis unfolding s2 .
  qed
qed

lemma toString_1 [simp]: "toString 1 = ''1''" by code_simp
lemma toString_Suc0 [simp]: "toString (Suc 0) = ''1''" by code_simp
lemma toString_2 [simp]: "toString 2 = ''2''" by code_simp
lemma toString_3 [simp]: "toString 3 = ''3''" by code_simp
lemma toString_Suc_Suc0 [simp]: "toString (Suc (Suc 0)) = ''2''" by code_simp
lemma toString_Suc_Suc_Suc0 [simp]: "toString (Suc (Suc (Suc 0))) = ''3''" by code_simp
lemma digit_char_simps:
  "digit_char 0 = CHR ''0''" "digit_char 1 = CHR ''1''" "digit_char 2 = CHR ''2''"
  "digit_char 3 = CHR ''3''" "digit_char 4 = CHR ''4''" "digit_char 5 = CHR ''5''"
  "digit_char 6 = CHR ''6''" "digit_char 7 = CHR ''7''" "digit_char 8 = CHR ''8''"
  "digit_char 9 = CHR ''9''" "digit_char (Suc 0) = CHR ''1''"
  by code_simp+

lemma toString_max: "toString 9007199254740992 = ''9007199254740992''"
  by (simp add: toString.simps digit_char_simps)

lemma colliding_reachable:
  assumes r: "reachable s" and b: "nextId s + length ts \<le> 2 ^ 53"
  shows "colliding s ts = []"
proof (cases ts)
  case Nil
  then show ?thesis by (simp add: colliding_def)
next
  case (Cons t ts')
  with b have "nextId s < 2 ^ 53" by simp
  with r have inv: "ids_below s" by (rule reachable_ids_below)
  have "\<not> has (dataMap s) (toString j)" if "nextId s \<le> j" for j
  proof
    assume "has (dataMap s) (toString j)"
    with inv obtain i where "i < nextId s" "toString j = toString i" by (auto simp add: ids_below_def)
    with that show False by simp
  qed
  then show ?thesis
    by (auto simp add: colliding_def filter_empty_conv in_set_enumerate_eq)
qed

section \<open>Collisions in a batch\<close>

text \<open>
  C5, as the code has it: in every reachable state, a POST of an array whose identifiers
  are all generated below \<open>2 ^ 53\<close> (\<open>nextId + length \<le> 2 ^ 53\<close>) meets no key of
  the store: none of the generated identifiers is a key, the error list of the loop is
  empty and the answer is 201.
\<close>

theorem batch_never_collides:
  assumes "reachable s" and "nextId s + length ts \<le> 2 ^ 53"
  shows "(\<forall>i<length ts. \<not> has (dataMap s) (toString (nextId s + i)))
       \<and> snd (snd (post_loop ts s [] [])) = []
       \<and> status (snd (post_tasks s (BArr ts))) = 201"
proof -
  from assms have c: "colliding s ts = []" by (rule colliding_reachable)
  have 1: "\<not> has (dataMap s) (toString (nextId s + i))" if "i < length ts" for i
  proof
    assume "has (dataMap s) (toString (nextId s + i))"
    with that have "(nextId s + i, ts ! i) \<in> set (colliding s ts)"
      by (simp add: colliding_def in_set_enumerate_eq)
    with c show False by simp
  qed
  have 2: "snd (snd (post_loop ts s [] [])) = []"
    using post_loop_exact [OF assms(2), of "[]" "[]"] c by simp
  then have 3: "status (snd (post_tasks s (BArr ts))) = 201"
    by (cases "post_loop ts s [] []") (simp add: post_tasks_def)
  from 1 2 3 show ?thesis by blast
qed

theorem batch_never_collides_witness:
  "reachable init \<and> nextId init + length [fmempty :: task, fmempty] \<le> 2 ^ 53
   \<and> \<not> has (dataMap init) ''1'' \<and> \<not> has (dataMap init) ''2''
   \<and> snd (snd (post_loop [fmempty, fmempty] init [] [])) = []
   \<and> status (snd (post_tasks init (BArr [fmempty, fmempty]))) = 201"
proof -
  have b: "nextId init + length [fmempty :: task, fmempty] \<le> 2 ^ 53" by (simp add: init_def)
  from batch_never_collides [OF reachable_init b] b reachable_init show ?thesis
    by (simp add: init_def)
qed

text \<open>
  C5 as stated fails once the counter has reached \<open>2 ^ 53\<close>, where \<^verbatim>\<open>nextId++\<close> no
  longer changes it: the state below is reachable (\<open>2 ^ 53 - 1\<close> creations, each followed
  by its deletion, then one more creation), and a batch of one task collides there.
\<close>

theorem batch_collision_reachable:
  "reachable \<lparr>dataMap = [(''9007199254740992'', fmupd ''id'' (JStr ''9007199254740992'') fmempty)],
              nextId = 9007199254740992\<rparr>
   \<and> post_tasks \<lparr>dataMap = [(''9007199254740992'', fmupd ''id'' (JStr ''9007199254740992'') fmempty)],
                 nextId = 9007199254740992\<rparr> (BArr [fmempty])
     = (\<lparr>dataMap = [(''9007199254740992'', fmupd ''id'' (JStr ''9007199254740992'') fmempty)],
         nextId = 9007199254740992\<rparr>,
        \<lparr>status = 400,
         payload = JObj (fmupd ''errors'' (JArr [id_exists ''9007199254740992'']) fmempty)\<rparr>)"
proof -
  let ?s0 = "\<lparr>dataMap = [], nextId = 9007199254740992\<rparr>"
  have "reachable ?s0" by (rule reachable_counter) simp_all
  then have "reachable (fst (handle ?s0 (PostTasks (BObj fmempty))))" by (rule reachable_step)
  then show ?thesis
    by (simp add: post_tasks_def Let_def incr_def toString_max)
qed

section \<open>Creating from an empty array\<close>

text \<open>
  C10: for every store state, POST /tasks with an empty array answers 201 with an empty
  array and leaves both the store mapping and \<open>nextId\<close> unchanged.
\<close>

theorem post_empty_array:
  "post_tasks s (BArr []) = (s, \<lparr>status = 201, payload = JArr []\<rparr>)"
  by (simp add: post_tasks_def)

section \<open>Replacing a task\<close>

lemma nonempty_string_truthy: "nonempty_string v \<Longrightarrow> truthy_opt v"
  by (auto simp add: nonempty_string_def truthy_opt_def split: option.splits json.splits)

text \<open>
  C2, as the code has it: PUT on an absent id answers 404 and changes nothing; on a
  present id it succeeds exactly when \<open>title\<close> and \<open>describe\<close> are truthy and
  \<open>isCompleted\<close> is a boolean, and otherwise answers 400 and changes nothing. A body
  that is valid in the specification's words (non-empty strings and a boolean) is
  accepted; the converse does not hold.
\<close>

theorem put_validation:
  "(\<not> has (dataMap s) k \<longrightarrow> put_task s k b = (s, \<lparr>status = 404, payload = task_not_found\<rparr>))
   \<and> (has (dataMap s) k \<longrightarrow>
        put_task s k b =
          (if truthy_opt (fmlookup b ''title'') \<and> truthy_opt (fmlookup b ''describe'')
              \<and> is_boolean (fmlookup b ''isCompleted'')
           then (s\<lparr>dataMap := AList.update k b (dataMap s)\<rparr>,
                 \<lparr>status = 200, payload = JObj (with_id k b)\<rparr>)
           else (s, \<lparr>status = 400, payload = invalid_data\<rparr>)))
   \<and> (has (dataMap s) k \<and> put_valid_spec b \<longrightarrow> status (snd (put_task s k b)) = 200)"
  by (auto simp add: put_task_def put_valid_spec_def nonempty_string_truthy)

theorem put_validation_witness:
  "\<not> has (dataMap init) ''1''
   \<and> put_task init ''1'' fmempty = (init, \<lparr>status = 404, payload = task_not_found\<rparr>)
   \<and> has (dataMap \<lparr>dataMap = [(''1'', fmupd ''id'' (JStr ''1'') fmempty)], nextId = 2\<rparr>) ''1''
   \<and> put_task \<lparr>dataMap = [(''1'', fmupd ''id'' (JStr ''1'') fmempty)], nextId = 2\<rparr> ''1''
        (fmupd ''title'' (JStr '''') fmempty)
      = (\<lparr>dataMap = [(''1'', fmupd ''id'' (JStr ''1'') fmempty)], nextId = 2\<rparr>,
         \<lparr>status = 400, payload = invalid_data\<rparr>)
   \<and> put_valid_spec (fmupd ''isCompleted'' (JBool False) (fmupd ''describe'' (JStr ''d'')
        (fmupd ''title'' (JStr ''c'') fmempty)))
   \<and> status (snd (put_task \<lparr>dataMap = [(''1'', fmupd ''id'' (JStr ''1'') fmempty)], nextId = 2\<rparr> ''1''
        (fmupd ''isCompleted'' (JBool False) (fmupd ''describe'' (JStr ''d'')
        (fmupd ''title'' (JStr ''c'') fmempty))))) = 200"
proof -
  let ?s = "\<lparr>dataMap = [(''1'', fmupd ''id'' (JStr ''1'') fmempty)], nextId = 2\<rparr>"
  let ?ok = "fmupd ''isCompleted'' (JBool False) (fmupd ''describe'' (JStr ''d'')
        (fmupd ''title'' (JStr ''c'') fmempty))"
  have a: "\<not> has (dataMap init) ''1''" by (simp add: init_def)
  have h: "has (dataMap ?s) ''1''" by simp
  have v: "put_valid_spec ?ok" by (simp add: put_valid_spec_def nonempty_string_def)
  from put_validation [of init "''1''" fmempty] a
  have 1: "put_task init ''1'' fmempty = (init, \<lparr>status = 404, payload = task_not_found\<rparr>)"
    by blast
  from put_validation [of ?s "''1''" "fmupd ''title'' (JStr '''') fmempty"] h
  have 2: "put_task ?s ''1'' (fmupd ''title'' (JStr '''') fmempty)
      = (?s, \<lparr>status = 400, payload = invalid_data\<rparr>)"
    by (simp add: truthy_opt_def)
  from put_validation [of ?s "''1''" ?ok] h v
  have 3: "status (snd (put_task ?s ''1'' ?ok)) = 200" by blast
  from a 1 h 2 v 3 show ?thesis by blast
qed

text \<open>
  C2 as stated fails: a body whose \<open>title\<close> is the number 5 has no \<open>title\<close> of string
  type, and PUT accepts it and replaces the stored record.
\<close>

theorem put_accepts_non_string:
  "has (dataMap \<lparr>dataMap = [(''1'', fmupd ''id'' (JStr ''1'') fmempty)], nextId = 2\<rparr>) ''1''
   \<and> \<not> nonempty_string (fmlookup (fmupd ''isCompleted'' (JBool True) (fmupd ''describe'' (JStr ''d'')
        (fmupd ''title'' (JNum 5) fmempty))) ''title'')
   \<and> \<not> put_valid_spec (fmupd ''isCompleted'' (JBool True) (fmupd ''describe'' (JStr ''d'')
        (fmupd ''title'' (JNum 5) fmempty)))
   \<and> put_task \<lparr>dataMap = [(''1'', fmupd ''id'' (JStr ''1'') fmempty)], nextId = 2\<rparr> ''1''
        (fmupd ''isCompleted'' (JBool True) (fmupd ''describe'' (JStr ''d'')
        (fmupd ''title'' (JNum 5) fmempty)))
      = (\<lparr>dataMap = [(''1'', fmupd ''isCompleted'' (JBool True) (fmupd ''describe'' (JStr ''d'')
            (fmupd ''title'' (JNum 5) fmempty)))], nextId = 2\<rparr>,
         \<lparr>status = 200, payload = JObj (with_id ''1'' (fmupd ''isCompleted'' (JBool True)
            (fmupd ''describe'' (JStr ''d'') (fmupd ''title'' (JNum 5) fmempty))))\<rparr>)"
  by (simp add: put_task_def put_valid_spec_def nonempty_string_def truthy_opt_def)

section \<open>Creating one task\<close>

lemma strip_value_id_lookup_id [simp]:
  "fmlookup (strip_value_id t) ''id'' = fmlookup t ''id''"
  by (simp add: strip_value_id_def split: option.splits json.splits)

lemma created_lookup_id [simp]: "fmlookup (created n t) ''id'' = Some (JStr (toString n))"
  by (simp add: created_def)

lemma map_of_update_same [simp]: "map_of (AList.update k v m) k = Some v"
  by (simp add: update_conv')

text \<open>
  C7, as the code has it: for every store state and every object body, POST builds the
  record \<open>created (nextId s) body\<close>, stores it under the decimal string of the current
  counter and answers 201 with it; the record carries that string as its \<open>id\<close>; the
  counter is incremented while it is below \<open>2 ^ 53\<close>; and the record is the body with
  \<open>id\<close> set, from which the \<open>id\<close> under \<open>value\<close> has been removed when \<open>value\<close> is an
  object whose \<open>id\<close> is truthy, and is the body with \<open>id\<close> set otherwise. No path of
  the branch answers anything but 201.
\<close>

theorem create_one:
  "post_tasks s (BObj body) =
     (\<lparr>dataMap = AList.update (toString (nextId s)) (created (nextId s) body) (dataMap s),
       nextId = incr (nextId s)\<rparr>,
      \<lparr>status = 201, payload = JObj (created (nextId s) body)\<rparr>)
   \<and> (nextId s < 2 ^ 53 \<longrightarrow> nextId (fst (post_tasks s (BObj body))) = nextId s + 1)
   \<and> map_of (dataMap (fst (post_tasks s (BObj body)))) (toString (nextId s))
       = Some (created (nextId s) body)
   \<and> response_id (snd (post_tasks s (BObj body))) = Some (JStr (toString (nextId s)))
   \<and> created (nextId s) body =
       (case fmlookup body ''value'' of
          Some (JObj m) \<Rightarrow>
            if truthy_opt (fmlookup m ''id'')
            then fmupd ''value'' (JObj (fmdrop ''id'' m)) (fmupd ''id'' (JStr (toString (nextId s))) body)
            else fmupd ''id'' (JStr (toString (nextId s))) body
        | _ \<Rightarrow> fmupd ''id'' (JStr (toString (nextId s))) body)"
  by (simp add: post_tasks_def Let_def created_def [symmetric] response_id_def incr_def)
     (simp add: created_def strip_value_id_def truthy_opt_def split: option.splits json.splits)

theorem create_one_witness:
  "nextId init < 2 ^ 53
   \<and> nextId (fst (post_tasks init (BObj (fmupd ''value'' (JObj (fmupd ''id'' (JNum 7) fmempty)) fmempty)))) = 2
   \<and> post_tasks init (BObj (fmupd ''value'' (JObj (fmupd ''id'' (JNum 7) fmempty)) fmempty)) =
       (\<lparr>dataMap = [(''1'', fmupd ''value'' (JObj fmempty) (fmupd ''id'' (JStr ''1'') fmempty))],
         nextId = 2\<rparr>,
        \<lparr>status = 201,
         payload = JObj (fmupd ''value'' (JObj fmempty) (fmupd ''id'' (JStr ''1'') fmempty))\<rparr>)"
proof -
  let ?b = "fmupd ''value'' (JObj (fmupd ''id'' (JNum 7) fmempty)) (fmempty :: task)"
  have lt: "nextId init < 2 ^ 53" by (simp add: init_def)
  note t = create_one [of init ?b]
  note t1 = t [THEN conjunct1]
  note t2 = t [THEN conjunct2, THEN conjunct1]
  note t5 = t [THEN conjunct2, THEN conjunct2, THEN conjunct2, THEN conjunct2]
  from t2 lt have "nextId (fst (post_tasks init (BObj ?b))) = nextId init + 1" by (rule mp)
  then have 2: "nextId (fst (post_tasks init (BObj ?b))) = 2" by (simp add: init_def)
  have c: "created (nextId init) ?b =
      fmupd ''value'' (JObj fmempty) (fmupd ''id'' (JStr ''1'') fmempty)"
    by (subst t5, rule fmap_ext) (simp add: init_def truthy_opt_def fmdrop_fmupd_same)
  have 3: "post_tasks init (BObj ?b) =
       (\<lparr>dataMap = [(''1'', fmupd ''value'' (JObj fmempty) (fmupd ''id'' (JStr ''1'') fmempty))],
         nextId = 2\<rparr>,
        \<lparr>status = 201,
         payload = JObj (fmupd ''value'' (JObj fmempty) (fmupd ''id'' (JStr ''1'') fmempty))\<rparr>)"
    by (subst t1, subst c, subst c) (simp add: init_def incr_def)
  from lt 2 3 show ?thesis by blast
qed

text \<open>
  C7 as stated fails in two places: a nested \<open>id\<close> that is the number 0 is stored and
  returned, not removed; and in the reachable state with the counter at \<open>2 ^ 53\<close> a
  creation leaves the counter where it was.
\<close>

theorem create_one_exceptions:
  "post_tasks init (BObj (fmupd ''value'' (JObj (fmupd ''id'' (JNum 0) fmempty)) fmempty)) =
       (\<lparr>dataMap = [(''1'', fmupd ''id'' (JStr ''1'')
                        (fmupd ''value'' (JObj (fmupd ''id'' (JNum 0) fmempty)) fmempty))],
         nextId = 2\<rparr>,
        \<lparr>status = 201,
         payload = JObj (fmupd ''id'' (JStr ''1'')
                        (fmupd ''value'' (JObj (fmupd ''id'' (JNum 0) fmempty)) fmempty))\<rparr>)
   \<and> reachable \<lparr>dataMap = [], nextId = 9007199254740992\<rparr>
   \<and> nextId (fst (post_tasks \<lparr>dataMap = [], nextId = 9007199254740992\<rparr> (BObj fmempty)))
       = 9007199254740992"
proof -
  have "reachable \<lparr>dataMap = [], nextId = 9007199254740992\<rparr>"
    by (rule reachable_counter) simp_all
  then show ?thesis
    by (simp add: post_tasks_def Let_def incr_def init_def strip_value_id_def truthy_opt_def)
qed

section \<open>Deleting and reading\<close>

lemma absent_kept:
  "\<not> creates r \<Longrightarrow> \<not> has (dataMap s) k \<Longrightarrow> \<not> has (dataMap (fst (handle s r))) k"
  by (cases r) (auto simp add: delete_task_def patch_task_def put_task_def)

lemma absent_kept_run:
  "\<forall>r \<in> set rs. \<not> creates r \<Longrightarrow> \<not> has (dataMap s) k \<Longrightarrow> \<not> has (dataMap (run s rs)) k"
  by (induction rs arbitrary: s) (simp_all add: absent_kept)

lemma get_task_absent: "\<not> has (dataMap s) k \<Longrightarrow> get_task s k = \<lparr>status = 404, payload = item_not_found\<rparr>"
  by (simp add: get_task_def has_def)

text \<open>
  C8: when \<open>k\<close> is a key of the store, DELETE answers 200 and, after any requests that
  create nothing, GET on \<open>k\<close> answers 404; when \<open>k\<close> is not a key, GET and DELETE each
  answer 404 and leave the state as it was.
\<close>

theorem delete_then_get:
  "(has (dataMap s) k \<and> (\<forall>r \<in> set rs. \<not> creates r) \<longrightarrow>
      snd (delete_task s k) = \<lparr>status = 200, payload = deleted_message\<rparr>
      \<and> get_task (run (fst (delete_task s k)) rs) k = \<lparr>status = 404, payload = item_not_found\<rparr>)
   \<and> (\<not> has (dataMap s) k \<longrightarrow>
      handle s (GetTask k) = (s, \<lparr>status = 404, payload = item_not_found\<rparr>)
      \<and> handle s (DeleteTask k) = (s, \<lparr>status = 404, payload = item_not_found\<rparr>))"
proof -
  have "\<not> has (dataMap (fst (delete_task s k))) k" by (simp add: delete_task_def)
  then have "\<not> has (dataMap (run (fst (delete_task s k)) rs)) k" if "\<forall>r \<in> set rs. \<not> creates r"
    using that absent_kept_run by blast
  then show ?thesis
    by (auto simp add: get_task_absent) (simp_all add: delete_task_def)
qed

theorem delete_then_get_witness:
  "has (dataMap \<lparr>dataMap = [(''1'', fmupd ''id'' (JStr ''1'') fmempty)], nextId = 2\<rparr>) ''1''
   \<and> \<not> creates (PatchTask ''1'' fmempty) \<and> \<not> creates GetTasks
   \<and> snd (delete_task \<lparr>dataMap = [(''1'', fmupd ''id'' (JStr ''1'') fmempty)], nextId = 2\<rparr> ''1'')
       = \<lparr>status = 200, payload = deleted_message\<rparr>
   \<and> get_task (run (fst (delete_task
         \<lparr>dataMap = [(''1'', fmupd ''id'' (JStr ''1'') fmempty)], nextId = 2\<rparr> ''1''))
         [PatchTask ''1'' fmempty, GetTasks]) ''1''
       = \<lparr>status = 404, payload = item_not_found\<rparr>
   \<and> \<not> has (dataMap init) ''1''
   \<and> handle init (GetTask ''1'') = (init, \<lparr>status = 404, payload = item_not_found\<rparr>)
   \<and> handle init (DeleteTask ''1'') = (init, \<lparr>status = 404, payload = item_not_found\<rparr>)"
proof -
  let ?s = "\<lparr>dataMap = [(''1'', fmupd ''id'' (JStr ''1'') fmempty)], nextId = 2\<rparr>"
  have h: "has (dataMap ?s) ''1''" by simp
  have n: "\<forall>r \<in> set [PatchTask ''1'' fmempty, GetTasks]. \<not> creates r" by simp
  have a: "\<not> has (dataMap init) ''1''" by (simp add: init_def)
  from delete_then_get [of ?s "''1''" "[PatchTask ''1'' fmempty, GetTasks]"] h n
  have 1: "snd (delete_task ?s ''1'') = \<lparr>status = 200, payload = deleted_message\<rparr>"
    and 2: "get_task (run (fst (delete_task ?s ''1'')) [PatchTask ''1'' fmempty, GetTasks]) ''1''
       = \<lparr>status = 404, payload = item_not_found\<rparr>" by blast+
  from delete_then_get [of init "''1''" "[]"] a
  have 3: "handle init (GetTask ''1'') = (init, \<lparr>status = 404, payload = item_not_found\<rparr>)"
    and 4: "handle init (DeleteTask ''1'') = (init, \<lparr>status = 404, payload = item_not_found\<rparr>)"
    by blast+
  from h 1 2 a 3 4 show ?thesis by simp
qed

section \<open>The nested identifier\<close>

lemma strip_value_id_changes:
  "strip_value_id t \<noteq> t \<Longrightarrow>
     \<exists>m x. fmlookup t ''value'' = Some (JObj m) \<and> fmlookup m ''id'' = Some x \<and> truthy x"
  by (auto simp add: strip_value_id_def truthy_opt_def split: option.splits json.splits if_splits)

lemma strip_value_id_falsy:
  "fmlookup t ''value'' = Some (JObj m) \<Longrightarrow> \<not> truthy_opt (fmlookup m ''id'') \<Longrightarrow> strip_value_id t = t"
  by (simp add: strip_value_id_def)

text \<open>
  C9: the conditional \<^verbatim>\<open>delete task.value.id\<close> changes a task only when its \<open>value\<close> is
  an object whose \<open>id\<close> is truthy; and when the \<open>id\<close> under \<open>value\<close> is 0, the empty
  string, false or null, the record stored by POST, for an object body and for an array
  with that one task, is the task with its own \<open>id\<close> set and \<open>value\<close>, nested \<open>id\<close>
  included, as the client sent it.
\<close>

theorem nested_id_truthy_only:
  "(strip_value_id t \<noteq> t \<longrightarrow>
      (\<exists>m x. fmlookup t ''value'' = Some (JObj m) \<and> fmlookup m ''id'' = Some x \<and> truthy x))
   \<and> (fmlookup body ''value'' = Some (JObj m) \<and> fmlookup m ''id'' = Some x
       \<and> x \<in> {JNum 0, JStr [], JBool False, JNull} \<longrightarrow>
        map_of (dataMap (fst (post_tasks s (BObj body)))) (toString (nextId s))
          = Some (fmupd ''id'' (JStr (toString (nextId s))) body)
        \<and> fmlookup (fmupd ''id'' (JStr (toString (nextId s))) body) ''value'' = Some (JObj m)
        \<and> (\<not> has (dataMap s) (toString (nextId s)) \<longrightarrow>
             map_of (dataMap (fst (post_tasks s (BArr [body])))) (toString (nextId s))
               = Some (fmupd ''id'' (JStr (toString (nextId s))) body)))"
proof -
  have f: "strip_value_id (fmupd ''id'' v body) = fmupd ''id'' v body"
    if "fmlookup body ''value'' = Some (JObj m)" "fmlookup m ''id'' = Some x"
       "x \<in> {JNum 0, JStr [], JBool False, JNull}" for v
    using that by (intro strip_value_id_falsy [of _ m]) (auto simp add: truthy_opt_def)
  show ?thesis
    using strip_value_id_changes [of t]
    by (auto simp add: post_tasks_def Let_def f)
qed

theorem nested_id_truthy_only_witness:
  "strip_value_id (fmupd ''value'' (JObj (fmupd ''id'' (JNum 7) fmempty)) fmempty)
     \<noteq> fmupd ''value'' (JObj (fmupd ''id'' (JNum 7) fmempty)) fmempty
   \<and> truthy (JNum 7)
   \<and> fmlookup (fmupd ''value'' (JObj (fmupd ''id'' (JNum 0) fmempty)) fmempty) ''value''
       = Some (JObj (fmupd ''id'' (JNum 0) fmempty))
   \<and> map_of (dataMap (fst (post_tasks init
         (BObj (fmupd ''value'' (JObj (fmupd ''id'' (JNum 0) fmempty)) fmempty))))) ''1''
       = Some (fmupd ''id'' (JStr ''1'') (fmupd ''value'' (JObj (fmupd ''id'' (JNum 0) fmempty)) fmempty))
   \<and> \<not> has (dataMap init) ''1''
   \<and> map_of (dataMap (fst (post_tasks init
         (BArr [fmupd ''value'' (JObj (fmupd ''id'' (JNum 0) fmempty)) fmempty])))) ''1''
       = Some (fmupd ''id'' (JStr ''1'') (fmupd ''value'' (JObj (fmupd ''id'' (JNum 0) fmempty)) fmempty))"
proof -
  let ?m = "fmupd ''id'' (JNum 0) (fmempty :: task)"
  let ?b = "fmupd ''value'' (JObj ?m) (fmempty :: task)"
  let ?t = "fmupd ''value'' (JObj (fmupd ''id'' (JNum 7) fmempty)) (fmempty :: task)"
  have c: "strip_value_id ?t \<noteq> ?t"
  proof
    assume "strip_value_id ?t = ?t"
    then have "fmlookup (strip_value_id ?t) ''value'' = fmlookup ?t ''value''" by simp
    then show False by (simp add: strip_value_id_def truthy_opt_def fmdrop_fmupd_same)
  qed
  have v: "fmlookup ?b ''value'' = Some (JObj ?m)" by simp
  have i: "fmlookup ?m ''id'' = Some (JNum 0)" by simp
  have x: "JNum 0 \<in> {JNum 0, JStr [], JBool False, JNull}" by simp
  have a: "\<not> has (dataMap init) (toString (nextId init))" by (simp add: init_def)
  note t = nested_id_truthy_only [of ?t ?b ?m "JNum 0" init]
  from t v i x have 1: "map_of (dataMap (fst (post_tasks init (BObj ?b)))) (toString (nextId init))
          = Some (fmupd ''id'' (JStr (toString (nextId init))) ?b)" by blast
  from t v i x a have 2: "map_of (dataMap (fst (post_tasks init (BArr [?b])))) (toString (nextId init))
          = Some (fmupd ''id'' (JStr (toString (nextId init))) ?b)" by blast
  have n: "toString (nextId init) = ''1''" by (simp add: init_def)
  from c v 1 2 a show ?thesis unfolding n by simp
qed

section \<open>Patching, and the identifier in responses\<close>

text \<open>
  PATCH on a present id stores the body as it is and answers 201 with the body as it is;
  the object spread of GET and PUT lets an \<open>id\<close> property of the record replace the key.
\<close>

lemma with_id_lookup:
  "fmlookup (with_id k v) ''id'' = (case fmlookup v ''id'' of None \<Rightarrow> Some (JStr k) | Some x \<Rightarrow> Some x)"
  by (auto simp add: with_id_def fmlookup_dom_iff split: option.splits)

lemma patch_task_present:
  "has (dataMap s) k \<Longrightarrow>
     patch_task s k body = (s\<lparr>dataMap := AList.update k body (dataMap s)\<rparr>,
                            \<lparr>status = 201, payload = JObj body\<rparr>)"
  by (simp add: patch_task_def)

lemma patch_task_stored:
  "has (dataMap s) k \<Longrightarrow>
     map_of (dataMap (fst (patch_task s k body))) = (map_of (dataMap s))(k \<mapsto> body)"
  by (simp add: patch_task_def update_conv')

text \<open>
  C3 at one input: after \<^verbatim>\<open>POST {}\<close> has created the record 1, PATCH of record 1 with
  \<^verbatim>\<open>{"title": "x"}\<close> replaces the whole stored record by that body and answers 201
  with that body, which has no \<open>id\<close> property.
\<close>

theorem patch_response_lacks_id:
  "has (dataMap (fst (handle init (PostTasks (BObj fmempty))))) ''1''
   \<and> handle (fst (handle init (PostTasks (BObj fmempty))))
        (PatchTask ''1'' (fmupd ''title'' (JStr ''x'') fmempty))
      = (\<lparr>dataMap = [(''1'', fmupd ''title'' (JStr ''x'') fmempty)], nextId = 2\<rparr>,
         \<lparr>status = 201, payload = JObj (fmupd ''title'' (JStr ''x'') fmempty)\<rparr>)
   \<and> response_id (snd (handle (fst (handle init (PostTasks (BObj fmempty))))
        (PatchTask ''1'' (fmupd ''title'' (JStr ''x'') fmempty)))) = None"
  by (simp add: init_def post_tasks_def patch_task_def Let_def incr_def response_id_def)

text \<open>
  C4 at one reachable state: after \<^verbatim>\<open>POST {}\<close> has created the record 1, PUT of
  record 1 with a valid body that carries \<^verbatim>\<open>"id": "7"\<close> answers 200 with \<open>id\<close> 7, and a
  later GET of record 1 carries \<open>id\<close> 7; after a PATCH with \<^verbatim>\<open>{"id": "7"}\<close> the list of
  all records shows record 1 with \<open>id\<close> 7; and the 201 response of a PATCH with
  \<^verbatim>\<open>{"title": "x"}\<close> carries no \<open>id\<close> at all.
\<close>

theorem response_id_differs_from_key:
  "reachable (fst (handle init (PostTasks (BObj fmempty))))
   \<and> has (dataMap (fst (handle init (PostTasks (BObj fmempty))))) ''1''
   \<and> status (snd (handle (fst (handle init (PostTasks (BObj fmempty))))
        (PutTask ''1'' (fmupd ''id'' (JStr ''7'') (fmupd ''isCompleted'' (JBool True)
           (fmupd ''describe'' (JStr ''b'') (fmupd ''title'' (JStr ''a'') fmempty))))))) = 200
   \<and> response_id (snd (handle (fst (handle init (PostTasks (BObj fmempty))))
        (PutTask ''1'' (fmupd ''id'' (JStr ''7'') (fmupd ''isCompleted'' (JBool True)
           (fmupd ''describe'' (JStr ''b'') (fmupd ''title'' (JStr ''a'') fmempty))))))) = Some (JStr ''7'')
   \<and> response_id (get_task (run init [PostTasks (BObj fmempty),
        PutTask ''1'' (fmupd ''id'' (JStr ''7'') (fmupd ''isCompleted'' (JBool True)
           (fmupd ''describe'' (JStr ''b'') (fmupd ''title'' (JStr ''a'') fmempty))))]) ''1'')
       = Some (JStr ''7'')
   \<and> payload (get_tasks (run init [PostTasks (BObj fmempty),
        PatchTask ''1'' (fmupd ''id'' (JStr ''7'') fmempty)]))
       = JArr [JObj (fmupd ''id'' (JStr ''7'') fmempty)]
   \<and> status (snd (handle (fst (handle init (PostTasks (BObj fmempty))))
        (PatchTask ''1'' (fmupd ''title'' (JStr ''x'') fmempty)))) = 201
   \<and> response_id (snd (handle (fst (handle init (PostTasks (BObj fmempty))))
        (PatchTask ''1'' (fmupd ''title'' (JStr ''x'') fmempty)))) = None"
proof -
  have "reachable (fst (handle init (PostTasks (BObj fmempty))))"
    using reachable_init by (rule reachable_step)
  then show ?thesis
    by (simp add: init_def post_tasks_def patch_task_def put_task_def get_task_def get_tasks_def
        Let_def incr_def response_id_def truthy_opt_def with_id_def)
qed

section \<open>Identifiers are issued in increasing order\<close>

lemma of_char_digit: "d < 10 \<Longrightarrow> of_char (digit_char d) = 48 + d"
  by (simp add: digit_char_def)

lemma toNumber_snoc: "toNumber (ds @ [c]) = 10 * toNumber ds + (of_char c - 48)"
  by (simp add: toNumber_def)

lemma toNumber_toString [simp]: "toNumber (toString n) = n"
proof (induction n rule: toString.induct)
  case (1 n)
  show ?case
  proof (cases "n < 10")
    case True
    then show ?thesis
      by (subst toString.simps) (simp add: toNumber_def of_char_digit)
  next
    case False
    with 1 have "toNumber (toString (n div 10)) = n div 10" by simp
    with False show ?thesis
      by (subst toString.simps) (simp add: toNumber_snoc of_char_digit)
  qed
qed


lemma keys_has: "k \<in> set (map fst m) \<longleftrightarrow> has m k"
  by (simp add: has_iff)







lemma record_id_created [simp]: "record_id (JObj (created n t)) = Some (JStr (toString n))"
  by (simp add: record_id_def)








section \<open>A batch that collides\<close>

text \<open>
  The loop over a batch, for every state: task number \<open>i\<close> is given the identifier made
  from \<open>counter s i\<close>; it is reported in \<open>errors\<close> when that identifier collides and is
  appended to the store and to \<open>addedTasks\<close> when it does not.
\<close>

lemma upt_0_Suc: "[0..<Suc m] = 0 # map Suc [0..<m]"
  by (simp add: upt_conv_Cons map_Suc_upt del: upt_Suc)

lemma counter_0 [simp]: "counter s 0 = nextId s"
  by (simp add: counter_def)

lemma counter_shift:
  "nextId s1 = incr (nextId s) \<Longrightarrow> counter s1 i = counter s (Suc i)"
  by (simp add: counter_def funpow_swap1)

lemma collides_0 [simp]: "collides s 0 \<longleftrightarrow> has (dataMap s) (toString (nextId s))"
  by (simp add: collides_def)

lemma collides_iff:
  "collides s i \<longleftrightarrow>
     has (dataMap s) (toString (counter s i)) \<or> counter s i \<in> counter s ` {0..<i}"
  by (simp add: collides_def)

lemma collides_shift:
  assumes n: "nextId s1 = incr (nextId s)"
    and d: "\<And>k. has (dataMap s1) k \<longleftrightarrow> has (dataMap s) k \<or> k = toString (nextId s)"
  shows "collides s1 i \<longleftrightarrow> collides s (Suc i)"
proof -
  have c: "counter s1 = (\<lambda>j. counter s (Suc j))"
    by (rule ext) (rule counter_shift [OF n])
  have e: "counter s ` {0..<Suc i} = insert (nextId s) ((\<lambda>j. counter s (Suc j)) ` {0..<i})"
    by (simp only: atLeast0_lessThan_Suc_eq_insert_0 image_insert image_image counter_0)
  have a: "collides s (Suc i) \<longleftrightarrow>
      has (dataMap s) (toString (counter s (Suc i))) \<or> counter s (Suc i) = nextId s
      \<or> counter s (Suc i) \<in> (\<lambda>j. counter s (Suc j)) ` {0..<i}"
    by (simp only: collides_iff e insert_iff)
  have b: "collides s1 i \<longleftrightarrow>
      (has (dataMap s) (toString (counter s (Suc i))) \<or> counter s (Suc i) = nextId s)
      \<or> counter s (Suc i) \<in> (\<lambda>j. counter s (Suc j)) ` {0..<i}"
    by (simp only: collides_iff c d toString_eq_iff)
  from a b show ?thesis by blast
qed

lemma post_loop_general:
  "post_loop ts s added errors =
     (s\<lparr>dataMap := dataMap s @ map (\<lambda>i. (toString (counter s i), created (counter s i) (ts ! i)))
                                  (filter (\<lambda>i. \<not> collides s i) [0..<length ts]),
        nextId := counter s (length ts)\<rparr>,
      added @ map (\<lambda>i. created (counter s i) (ts ! i)) (filter (\<lambda>i. \<not> collides s i) [0..<length ts]),
      errors @ map (\<lambda>i. id_exists (toString (counter s i))) (filter (collides s) [0..<length ts]))"
proof (induction ts arbitrary: s added errors)
  case Nil
  show ?case by simp
next
  case (Cons t ts)
  let ?n = "nextId s"
  show ?case
  proof (cases "has (dataMap s) (toString ?n)")
    case True
    let ?s1 = "s\<lparr>nextId := incr ?n\<rparr>"
    have c: "counter ?s1 i = counter s (Suc i)" for i by (rule counter_shift) simp
    have k: "collides ?s1 i \<longleftrightarrow> collides s (Suc i)" for i
      using True by (intro collides_shift) auto
    show ?thesis
      using True
      by (simp add: Let_def Cons.IH upt_0_Suc filter_map comp_def c k del: upt_Suc)
  next
    case False
    let ?v = "strip_value_id (fmupd ''id'' (JStr (toString ?n)) t)"
    let ?s2 = "s\<lparr>nextId := incr ?n, dataMap := dataMap s @ [(toString ?n, ?v)]\<rparr>"
    have c: "counter ?s2 i = counter s (Suc i)" for i by (rule counter_shift) simp
    have k: "collides ?s2 i \<longleftrightarrow> collides s (Suc i)" for i
      by (intro collides_shift) auto
    show ?thesis
      using False
      by (simp add: Let_def update_absent Cons.IH upt_0_Suc filter_map comp_def c k created_def
          del: upt_Suc)
  qed
qed

lemma map_add_has: "has m k \<Longrightarrow> (f ++ map_of m) k = map_of m k"
  by (auto simp add: has_def map_add_def split: option.splits)

lemma toString_max_pred: "toString 9007199254740991 = ''9007199254740991''"
  by (simp add: toString.simps digit_char_simps)

lemma reachable_last:
  "reachable \<lparr>dataMap = [(''9007199254740991'', fmupd ''id'' (JStr ''9007199254740991'') fmempty)],
              nextId = 9007199254740992\<rparr>"
proof -
  have "reachable \<lparr>dataMap = [], nextId = 9007199254740991\<rparr>"
    by (rule reachable_counter) simp_all
  then have "reachable (fst (handle \<lparr>dataMap = [], nextId = 9007199254740991\<rparr> (PostTasks (BObj fmempty))))"
    by (rule reachable_step)
  then show ?thesis
    by (simp add: post_tasks_def Let_def incr_def toString_max_pred)
qed

text \<open>
  C1, as the code has it: for every state and every batch, when the loop reports a
  collision the answer is 400 and lists, in order, the identifier of every colliding task
  (one whose identifier is a key of the store the batch starts from, or was given to an
  earlier task of the batch); the counter has been advanced once for each task; every
  entry the store had is kept as it was; and the tasks that do not collide are appended
  to the store all the same, so that the store is unchanged only when every task of the
  batch collides.
\<close>

theorem batch_collision_partial:
  assumes "snd (snd (post_loop ts s [] [])) \<noteq> []"
  shows "post_tasks s (BArr ts) =
           (s\<lparr>dataMap := dataMap s @ map (\<lambda>i. (toString (counter s i), created (counter s i) (ts ! i)))
                                        (filter (\<lambda>i. \<not> collides s i) [0..<length ts]),
              nextId := counter s (length ts)\<rparr>,
            \<lparr>status = 400,
             payload = JObj (fmupd ''errors''
               (JArr (map (\<lambda>i. id_exists (toString (counter s i)))
                          (filter (collides s) [0..<length ts]))) fmempty)\<rparr>)
       \<and> (\<forall>k. has (dataMap s) k \<longrightarrow>
             map_of (dataMap (fst (post_tasks s (BArr ts)))) k = map_of (dataMap s) k)
       \<and> (dataMap (fst (post_tasks s (BArr ts))) = dataMap s \<longleftrightarrow> (\<forall>i<length ts. collides s i))"
proof -
  note e = post_loop_general [of ts s "[]" "[]"]
  from assms have c: "map (\<lambda>i. id_exists (toString (counter s i))) (filter (collides s) [0..<length ts]) \<noteq> []"
    unfolding e by simp
  have 1: "post_tasks s (BArr ts) =
           (s\<lparr>dataMap := dataMap s @ map (\<lambda>i. (toString (counter s i), created (counter s i) (ts ! i)))
                                        (filter (\<lambda>i. \<not> collides s i) [0..<length ts]),
              nextId := counter s (length ts)\<rparr>,
            \<lparr>status = 400,
             payload = JObj (fmupd ''errors''
               (JArr (map (\<lambda>i. id_exists (toString (counter s i)))
                          (filter (collides s) [0..<length ts]))) fmempty)\<rparr>)"
    using c by (simp add: post_tasks_def e)
  show ?thesis
    unfolding 1 by (auto simp add: map_add_has filter_empty_conv)
qed

theorem batch_collision_partial_witness:
  "reachable \<lparr>dataMap = [(''9007199254740991'', fmupd ''id'' (JStr ''9007199254740991'') fmempty)],
              nextId = 9007199254740992\<rparr>
   \<and> snd (snd (post_loop [fmempty, fmempty]
        \<lparr>dataMap = [(''9007199254740991'', fmupd ''id'' (JStr ''9007199254740991'') fmempty)],
          nextId = 9007199254740992\<rparr> [] [])) \<noteq> []
   \<and> post_tasks \<lparr>dataMap = [(''9007199254740991'', fmupd ''id'' (JStr ''9007199254740991'') fmempty)],
                 nextId = 9007199254740992\<rparr> (BArr [fmempty, fmempty]) =
       (\<lparr>dataMap = [(''9007199254740991'', fmupd ''id'' (JStr ''9007199254740991'') fmempty),
                    (''9007199254740992'', fmupd ''id'' (JStr ''9007199254740992'') fmempty)],
         nextId = 9007199254740992\<rparr>,
        \<lparr>status = 400,
         payload = JObj (fmupd ''errors'' (JArr [id_exists ''9007199254740992'']) fmempty)\<rparr>)
   \<and> has (dataMap \<lparr>dataMap = [(''9007199254740991'', fmupd ''id'' (JStr ''9007199254740991'') fmempty)],
                    nextId = 9007199254740992\<rparr>) ''9007199254740991''
   \<and> map_of (dataMap (fst (post_tasks
         \<lparr>dataMap = [(''9007199254740991'', fmupd ''id'' (JStr ''9007199254740991'') fmempty)],
           nextId = 9007199254740992\<rparr> (BArr [fmempty, fmempty])))) ''9007199254740991''
       = Some (fmupd ''id'' (JStr ''9007199254740991'') fmempty)
   \<and> \<not> collides \<lparr>dataMap = [(''9007199254740991'', fmupd ''id'' (JStr ''9007199254740991'') fmempty)],
                    nextId = 9007199254740992\<rparr> 0
   \<and> collides \<lparr>dataMap = [(''9007199254740991'', fmupd ''id'' (JStr ''9007199254740991'') fmempty)],
                  nextId = 9007199254740992\<rparr> 1"
proof -
  let ?s = "\<lparr>dataMap = [(''9007199254740991'', fmupd ''id'' (JStr ''9007199254740991'') fmempty)],
              nextId = 9007199254740992\<rparr>"
  let ?ts = "[fmempty :: task, fmempty]"
  have c: "snd (snd (post_loop ?ts ?s [] [])) \<noteq> []"
    by (simp add: Let_def incr_def toString_max)
  have h: "has (dataMap ?s) ''9007199254740991''" by simp
  have k0: "counter ?s 0 = 9007199254740992" and k1: "counter ?s (Suc 0) = 9007199254740992"
    and k2: "counter ?s (Suc (Suc 0)) = 9007199254740992"
    by (simp_all add: counter_def incr_def)
  have c0: "\<not> collides ?s 0" by (simp add: toString_max)
  have c1: "collides ?s (Suc 0)" by (simp add: collides_def k0 k1)
  note t = batch_collision_partial [OF c]
  from t have 1: "post_tasks ?s (BArr ?ts) =
       (\<lparr>dataMap = [(''9007199254740991'', fmupd ''id'' (JStr ''9007199254740991'') fmempty),
                    (''9007199254740992'', fmupd ''id'' (JStr ''9007199254740992'') fmempty)],
         nextId = 9007199254740992\<rparr>,
        \<lparr>status = 400,
         payload = JObj (fmupd ''errors'' (JArr [id_exists ''9007199254740992'']) fmempty)\<rparr>)"
    by (simp add: c0 c1 k0 k1 k2 created_def toString_max)
  from t h have 2: "map_of (dataMap (fst (post_tasks ?s (BArr ?ts)))) ''9007199254740991''
       = map_of (dataMap ?s) ''9007199254740991''" by blast
  from reachable_last c 1 h 2 c0 c1 show ?thesis by simp
qed

text \<open>
  C1 as stated fails in a reachable state: with the counter at \<open>2 ^ 53\<close> and an empty
  store, both tasks of a batch of two are given the identifier 9007199254740992; the
  second collides with the first, the answer is 400, and the first task is in the store.
\<close>

theorem batch_collision_commits:
  "reachable \<lparr>dataMap = [], nextId = 9007199254740992\<rparr>
   \<and> post_tasks \<lparr>dataMap = [], nextId = 9007199254740992\<rparr> (BArr [fmempty, fmempty]) =
       (\<lparr>dataMap = [(''9007199254740992'', fmupd ''id'' (JStr ''9007199254740992'') fmempty)],
         nextId = 9007199254740992\<rparr>,
        \<lparr>status = 400,
         payload = JObj (fmupd ''errors'' (JArr [id_exists ''9007199254740992'']) fmempty)\<rparr>)
   \<and> dataMap (fst (post_tasks \<lparr>dataMap = [], nextId = 9007199254740992\<rparr> (BArr [fmempty, fmempty])))
     \<noteq> dataMap \<lparr>dataMap = [], nextId = 9007199254740992\<rparr>"
proof -
  have "reachable \<lparr>dataMap = [], nextId = 9007199254740992\<rparr>"
    by (rule reachable_counter) simp_all
  then show ?thesis
    by (simp add: post_tasks_def Let_def incr_def toString_max)
qed

section \<open>The scenarios of the specification\<close>

text \<open>
  The model on the two scenarios the specification lists: an empty store lists nothing,
  a created task is answered with \<open>id\<close> 1 and read back with the same body; an array of
  two tasks is answered with the identifiers 1 and 2 and leaves the counter at 3.
\<close>

lemma scenario_crud:
  "handle init (PostTasks (BObj (fmupd ''isCompleted'' (JBool False) (fmupd ''describe'' (JStr ''b'')
      (fmupd ''title'' (JStr ''a'') fmempty)))))
   = (\<lparr>dataMap = [(''1'', fmupd ''id'' (JStr ''1'') (fmupd ''isCompleted'' (JBool False)
          (fmupd ''describe'' (JStr ''b'') (fmupd ''title'' (JStr ''a'') fmempty))))], nextId = 2\<rparr>,
      \<lparr>status = 201, payload = JObj (fmupd ''id'' (JStr ''1'') (fmupd ''isCompleted'' (JBool False)
          (fmupd ''describe'' (JStr ''b'') (fmupd ''title'' (JStr ''a'') fmempty))))\<rparr>)"
  "get_task \<lparr>dataMap = [(''1'', fmupd ''id'' (JStr ''1'') (fmupd ''isCompleted'' (JBool False)
          (fmupd ''describe'' (JStr ''b'') (fmupd ''title'' (JStr ''a'') fmempty))))], nextId = 2\<rparr> ''1''
   = \<lparr>status = 200, payload = JObj (fmupd ''id'' (JStr ''1'') (fmupd ''isCompleted'' (JBool False)
          (fmupd ''describe'' (JStr ''b'') (fmupd ''title'' (JStr ''a'') fmempty))))\<rparr>"
  "get_tasks init = \<lparr>status = 200, payload = JArr []\<rparr>"
    apply (simp add: init_def post_tasks_def Let_def incr_def strip_value_id_def)
   apply (simp add: get_task_def with_id_def, rule fmap_ext, simp)
  apply (simp add: init_def get_tasks_def)
  done

lemma scenario_batch:
  "handle init (PostTasks (BArr [fmupd ''title'' (JStr ''a'') fmempty, fmupd ''title'' (JStr ''b'') fmempty]))
   = (\<lparr>dataMap = [(''1'', fmupd ''id'' (JStr ''1'') (fmupd ''title'' (JStr ''a'') fmempty)),
                  (''2'', fmupd ''id'' (JStr ''2'') (fmupd ''title'' (JStr ''b'') fmempty))],
        nextId = 3\<rparr>,
      \<lparr>status = 201,
       payload = JArr [JObj (fmupd ''id'' (JStr ''1'') (fmupd ''title'' (JStr ''a'') fmempty)),
                       JObj (fmupd ''id'' (JStr ''2'') (fmupd ''title'' (JStr ''b'') fmempty))]\<rparr>)"
  by (simp add: init_def post_tasks_def Let_def incr_def strip_value_id_def)

end
